theory Spec2Isabelle
  imports Main
begin

section \<open>Strings\<close>

text \<open>
  Paths, patterns and result texts are Python \<open>str\<close> values, modelled as \<open>string\<close>.
  A character is a byte: the ASCII text of paths and patterns is kept as it is, and the
  pictographs of the result texts are written as their UTF-8 bytes. \<open>str.lower\<close> is
  modelled on ASCII letters, every other character is left as it is.
\<close>

definition lower_char :: "char \<Rightarrow> char" where
  "lower_char c =
     (case map_of (zip ''ABCDEFGHIJKLMNOPQRSTUVWXYZ'' ''abcdefghijklmnopqrstuvwxyz'') c of
        None \<Rightarrow> c
      | Some l \<Rightarrow> l)"

definition lower :: "string \<Rightarrow> string" where
  "lower s = map lower_char s"

text \<open>\<open>s.startswith(p)\<close>\<close>

definition startswith :: "string \<Rightarrow> string \<Rightarrow> bool" where
  "startswith s p = (take (length p) s = p)"

text \<open>\<open>p in s\<close> on strings: \<open>p\<close> occurs in \<open>s\<close> as a contiguous run.\<close>

fun str_contains :: "string \<Rightarrow> string \<Rightarrow> bool" where
  "str_contains p [] = (p = [])"
| "str_contains p (c # cs) = (startswith (c # cs) p \<or> str_contains p cs)"

text \<open>\<open>sep.join(xs)\<close>\<close>

fun join :: "string \<Rightarrow> string list \<Rightarrow> string" where
  "join sep [] = []"
| "join sep [x] = x"
| "join sep (x # y # ys) = x @ sep @ join sep (y # ys)"

section \<open>The server object\<close>

text \<open>
  The attributes of \<open>SecurityMCPServer\<close> that the handlers read or write
  (\<open>__init__\<close>, server.py lines 23-27).
\<close>

record server =
  ssf_receiver_url :: string
  monitored_patterns :: "string list"
  event_count :: int

definition init_server :: server where
  "init_server =
     \<lparr> ssf_receiver_url = ''http://localhost:8082/events'',
       monitored_patterns = [''.secret'', ''.credentials'', ''/secure/'', ''api-key'', ''password''],
       event_count = 0 \<rparr>"

text \<open>\<open>is_sensitive_file\<close> (server.py lines 149-152).\<close>

definition is_sensitive_file :: "server \<Rightarrow> string \<Rightarrow> bool" where
  "is_sensitive_file s filepath =
     (let filepath_lower = lower filepath
      in list_ex (\<lambda>pattern. str_contains pattern filepath_lower) (monitored_patterns s))"

text \<open>
  The classifier as the specification words it: every pattern is lower-cased before it is
  looked for in the lower-cased path.
\<close>

definition spec_is_sensitive :: "string list \<Rightarrow> string \<Rightarrow> bool" where
  "spec_is_sensitive patterns filepath =
     list_ex (\<lambda>pattern. str_contains (lower pattern) (lower filepath)) patterns"

text \<open>\<open>str(n)\<close> for a Python integer: decimal digits, a minus sign before a negative one.\<close>

definition digit_char :: "nat \<Rightarrow> char" where
  "digit_char d = ''0123456789'' ! d"

fun str_nat :: "nat \<Rightarrow> string" where
  "str_nat n = (if n < 10 then [digit_char n] else str_nat (n div 10) @ [digit_char (n mod 10)])"

declare str_nat.simps [simp del]

definition str_int :: "int \<Rightarrow> string" where
  "str_int i = (if i < 0 then ''-'' @ str_nat (nat (- i)) else str_nat (nat i))"

text \<open>\<open>os.path.basename\<close>: what follows the last slash.\<close>

definition basename :: "string \<Rightarrow> string" where
  "basename p = rev (takeWhile (\<lambda>c. c \<noteq> CHR ''/'') (rev p))"

text \<open>The line feed and the pictographs of the texts, as UTF-8 bytes.\<close>

definition nl :: string where
  "nl = [CHR 0x0A]"

definition warning_sign :: string where
  "warning_sign = [CHR 0xE2, CHR 0x9A, CHR 0xA0, CHR 0xEF, CHR 0xB8, CHR 0x8F]"

definition page_icon :: string where
  "page_icon = [CHR 0xF0, CHR 0x9F, CHR 0x93, CHR 0x84]"

definition lock_icon :: string where
  "lock_icon = [CHR 0xF0, CHR 0x9F, CHR 0x94, CHR 0x92]"

definition cross_mark :: string where
  "cross_mark = [CHR 0xE2, CHR 0x9D, CHR 0x8C]"

definition folder_icon :: string where
  "folder_icon = [CHR 0xF0, CHR 0x9F, CHR 0x93, CHR 0x81]"

definition siren_icon :: string where
  "siren_icon = [CHR 0xF0, CHR 0x9F, CHR 0x9A, CHR 0xA8]"

definition check_mark :: string where
  "check_mark = [CHR 0xE2, CHR 0x9C, CHR 0x85]"

section \<open>The world outside the server\<close>

text \<open>
  The event that \<open>generate_caep_event\<close> builds (server.py lines 159-184), the nested
  dictionary flattened into one record.
\<close>

record caep_event =
  iss :: string
  jti :: string
  iat :: int
  aud :: string
  sub_id_format :: string
  sub_id_email :: string
  event_type :: string
  initiating_entity :: string
  risk_level :: string
  risk_type :: string
  reason_admin_en :: string
  event_timestamp :: int
  file_path :: string
  access_type :: string
  lab_session :: bool

text \<open>
  What a call finds outside the server object: the file system behind \<open>pathlib\<close>, the
  clock, and the receiver behind \<open>aiohttp\<close>. Every operation that can raise returns
  \<open>Inl\<close> of the exception's message, and \<open>Inr\<close> of its value otherwise. \<open>iterdir\<close>
  gives the names of the children. \<open>post\<close> gives the status of the response, or the
  exception of a connection that failed or timed out.
\<close>

record world =
  resolve :: "string \<Rightarrow> string + string"
  path_exists :: "string \<Rightarrow> string + bool"
  is_file :: "string \<Rightarrow> string + bool"
  is_dir :: "string \<Rightarrow> string + bool"
  read_text :: "string \<Rightarrow> string + string"
  iterdir :: "string \<Rightarrow> string + string list"
  time_jti :: int
  time_iat :: int
  time_ms :: int
  now_iso :: string
  post :: "string \<Rightarrow> caep_event \<Rightarrow> string + int"

text \<open>
  What a call does to the world, in the order it does it: a line printed, the request sent
  to the receiver, the content of a file read, a directory enumerated.
\<close>

datatype effect =
  Print string
| HttpPost string caep_event
| ReadText string
| IterDir string

fun posted :: "effect list \<Rightarrow> caep_event list" where
  "posted [] = []"
| "posted (HttpPost url ev # tr) = ev # posted tr"
| "posted (e # tr) = posted tr"

fun texts_read :: "effect list \<Rightarrow> string list" where
  "texts_read [] = []"
| "texts_read (ReadText p # tr) = p # texts_read tr"
| "texts_read (e # tr) = texts_read tr"

section \<open>Event generation\<close>

text \<open>
  \<open>generate_caep_event\<close> (server.py lines 154-206). The \<open>try\<close> around the request has a
  handler for every \<open>Exception\<close>, which prints a line; the three outcomes are the three
  branches of \<open>delivery_line\<close>.
\<close>

definition delivery_line :: "string + int \<Rightarrow> string" where
  "delivery_line outcome =
     (case outcome of
        Inr status \<Rightarrow>
          if status = 200 then check_mark @ '' Event delivered to receiver''
          else warning_sign @ ''  Receiver returned status: '' @ str_int status
      | Inl e \<Rightarrow> warning_sign @ ''  Receiver not available: '' @ e)"

definition make_event :: "world \<Rightarrow> server \<Rightarrow> string \<Rightarrow> string \<Rightarrow> caep_event" where
  "make_event w s filepath access =
     \<lparr> iss = ''https://ssf-lab-mcp-server.example.com'',
       jti = ''event-'' @ str_int (time_jti w) @ ''-'' @ str_int (event_count s),
       iat = time_iat w,
       aud = ''https://ssf-lab-receiver.example.com'',
       sub_id_format = ''email'',
       sub_id_email = ''lab-student@example.com'',
       event_type = ''https://schemas.openid.net/secevent/caep/event-type/session-risk-change'',
       initiating_entity = ''system'',
       risk_level = ''high'',
       risk_type = ''sensitive_file_access'',
       reason_admin_en = ''Sensitive file accessed: '' @ basename filepath,
       event_timestamp = time_ms w,
       file_path = filepath,
       access_type = access,
       lab_session = True \<rparr>"

definition generate_caep_event :: "world \<Rightarrow> server \<Rightarrow> string \<Rightarrow> string \<Rightarrow> server \<times> effect list" where
  "generate_caep_event w s filepath access =
     (let s' = s\<lparr>event_count := event_count s + 1\<rparr>;
          event = make_event w s' filepath access
      in (s',
          [Print (siren_icon @ '' SSF EVENT GENERATED: '' @ now_iso w),
           Print (''   File: '' @ filepath),
           Print ''   Risk Level: HIGH'',
           Print (''   Event ID: '' @ jti event),
           HttpPost (ssf_receiver_url s') event,
           Print (delivery_line (post w (ssf_receiver_url s') event))]))"

section \<open>Reading a file\<close>

text \<open>The containment test of \<open>handle_file_read\<close> (server.py line 95).\<close>

definition within_sandbox :: "string \<Rightarrow> bool" where
  "within_sandbox abs_path = startswith abs_path ''/workspace/test-files''"

text \<open>
  Containment as the specification words it: the path is the root, or begins with the root
  followed by the separator.
\<close>

definition spec_within_sandbox :: "string \<Rightarrow> string \<Rightarrow> bool" where
  "spec_within_sandbox root abs_path = (abs_path = root \<or> startswith abs_path (root @ ''/''))"

text \<open>The four texts that \<open>handle_file_read\<close> returns.\<close>

definition access_denied :: "string \<Rightarrow> string" where
  "access_denied abs_path =
     warning_sign @ ''  Access denied: File outside allowed directory'' @ nl @ ''Path: '' @ abs_path"

definition file_content :: "string \<Rightarrow> bool \<Rightarrow> string \<Rightarrow> string" where
  "file_content abs_path is_sensitive content =
     (let event_notice = (if is_sensitive then lock_icon @ '' SECURITY EVENT GENERATED'' else [])
      in page_icon @ '' File: '' @ abs_path @ nl @ event_notice @ nl @ nl @ ''Content:'' @ nl @ content)"

definition file_not_found :: "string \<Rightarrow> string" where
  "file_not_found abs_path = cross_mark @ '' File not found: '' @ abs_path"

definition error_reading :: "string \<Rightarrow> string" where
  "error_reading e = cross_mark @ '' Error reading file: '' @ e"

text \<open>
  The \<open>try\<close> block of \<open>handle_file_read\<close> (server.py lines 84-113): \<open>Inl\<close> is an exception
  that left the block, with the server and the effects as they were when it was raised.
\<close>

definition handle_file_read_try ::
  "world \<Rightarrow> server \<Rightarrow> string \<Rightarrow> (string + string) \<times> server \<times> effect list" where
  "handle_file_read_try w s filepath =
     (case resolve w filepath of
        Inl e \<Rightarrow> (Inl e, s, [])
      | Inr abs_path \<Rightarrow>
          (let is_sensitive = is_sensitive_file s abs_path;
               (s1, tr) = (if is_sensitive then generate_caep_event w s abs_path ''file_access''
                           else (s, []))
           in if \<not> within_sandbox abs_path then (Inr (access_denied abs_path), s1, tr)
              else
                (case path_exists w abs_path of
                   Inl e \<Rightarrow> (Inl e, s1, tr)
                 | Inr ex \<Rightarrow>
                     if \<not> ex then (Inr (file_not_found abs_path), s1, tr)
                     else
                       (case is_file w abs_path of
                          Inl e \<Rightarrow> (Inl e, s1, tr)
                        | Inr isf \<Rightarrow>
                            if \<not> isf then (Inr (file_not_found abs_path), s1, tr)
                            else
                              (case read_text w abs_path of
                                 Inl e \<Rightarrow> (Inl e, s1, tr @ [ReadText abs_path])
                               | Inr content \<Rightarrow>
                                   (Inr (file_content abs_path is_sensitive content), s1,
                                    tr @ [ReadText abs_path]))))))"

text \<open>\<open>handle_file_read\<close> (server.py lines 81-119): the block and its handler.\<close>

definition handle_file_read :: "world \<Rightarrow> server \<Rightarrow> string \<Rightarrow> string \<times> server \<times> effect list" where
  "handle_file_read w s filepath =
     (case handle_file_read_try w s filepath of
        (Inl e, s', tr) \<Rightarrow> (error_reading e, s', tr)
      | (Inr text, s', tr) \<Rightarrow> (text, s', tr))"

section \<open>Listing a directory\<close>

text \<open>
  The path of a child that \<open>iterdir\<close> yields: the directory, the separator unless the
  directory ends with it, and the name.
\<close>

definition child :: "string \<Rightarrow> string \<Rightarrow> string" where
  "child abs_path name =
     (if abs_path \<noteq> [] \<and> last abs_path = CHR ''/'' then abs_path @ name
      else abs_path @ ''/'' @ name)"

definition dir_not_found :: "string \<Rightarrow> string" where
  "dir_not_found abs_path = cross_mark @ '' Directory not found: '' @ abs_path"

definition dir_listing :: "string \<Rightarrow> string list \<Rightarrow> string" where
  "dir_listing abs_path files = folder_icon @ '' Directory: '' @ abs_path @ nl @ nl @ join nl files"

definition error_listing :: "string \<Rightarrow> string" where
  "error_listing e = cross_mark @ '' Error listing directory: '' @ e"

text \<open>
  The icon of one child (server.py lines 134-135). \<open>item.is_dir()\<close> is evaluated only for
  a child that is not sensitive, and may raise.
\<close>

definition item_icon :: "world \<Rightarrow> server \<Rightarrow> string \<Rightarrow> string + string" where
  "item_icon w s item =
     (let is_sensitive = is_sensitive_file s item
      in if is_sensitive then Inr lock_icon
         else (case is_dir w item of
                 Inl e \<Rightarrow> Inl e
               | Inr d \<Rightarrow> Inr (if d then folder_icon else page_icon)))"

text \<open>
  The label of a child as the specification words it: the sensitive marker first, then
  directory or file.
\<close>

definition spec_label :: "world \<Rightarrow> server \<Rightarrow> string \<Rightarrow> string" where
  "spec_label w s item =
     (if is_sensitive_file s item then lock_icon
      else if is_dir w item = Inr True then folder_icon
      else page_icon)"

text \<open>The loop over the children (server.py lines 132-136); the first exception ends it.\<close>

fun list_items :: "world \<Rightarrow> server \<Rightarrow> string \<Rightarrow> string list \<Rightarrow> string + string list" where
  "list_items w s abs_path [] = Inr []"
| "list_items w s abs_path (name # names) =
     (case item_icon w s (child abs_path name) of
        Inl e \<Rightarrow> Inl e
      | Inr icon \<Rightarrow>
          (case list_items w s abs_path names of
             Inl e \<Rightarrow> Inl e
           | Inr files \<Rightarrow> Inr ((icon @ '' '' @ name) # files)))"

text \<open>The \<open>try\<close> block of \<open>handle_list_files\<close> (server.py lines 124-141).\<close>

definition handle_list_files_try ::
  "world \<Rightarrow> server \<Rightarrow> string \<Rightarrow> (string + string) \<times> server \<times> effect list" where
  "handle_list_files_try w s dirpath =
     (case resolve w dirpath of
        Inl e \<Rightarrow> (Inl e, s, [])
      | Inr abs_path \<Rightarrow>
          (case path_exists w abs_path of
             Inl e \<Rightarrow> (Inl e, s, [])
           | Inr ex \<Rightarrow>
               if \<not> ex then (Inr (dir_not_found abs_path), s, [])
               else
                 (case is_dir w abs_path of
                    Inl e \<Rightarrow> (Inl e, s, [])
                  | Inr d \<Rightarrow>
                      if \<not> d then (Inr (dir_not_found abs_path), s, [])
                      else
                        (case iterdir w abs_path of
                           Inl e \<Rightarrow> (Inl e, s, [IterDir abs_path])
                         | Inr names \<Rightarrow>
                             (case list_items w s abs_path names of
                                Inl e \<Rightarrow> (Inl e, s, [IterDir abs_path])
                              | Inr files \<Rightarrow>
                                  (Inr (dir_listing abs_path files), s, [IterDir abs_path]))))))"

text \<open>\<open>handle_list_files\<close> (server.py lines 121-147): the block and its handler.\<close>

definition handle_list_files :: "world \<Rightarrow> server \<Rightarrow> string \<Rightarrow> string \<times> server \<times> effect list" where
  "handle_list_files w s dirpath =
     (case handle_list_files_try w s dirpath of
        (Inl e, s', tr) \<Rightarrow> (error_listing e, s', tr)
      | (Inr text, s', tr) \<Rightarrow> (text, s', tr))"

section \<open>Dispatch and runs\<close>

text \<open>
  \<open>handle_call_tool\<close> (server.py lines 68-79). A missing \<open>path\<close> argument of
  \<open>read_file_secure\<close> and an unknown tool name raise; neither is caught here.
\<close>

datatype call_error = KeyError string | ValueError string

definition handle_call_tool ::
  "world \<Rightarrow> server \<Rightarrow> string \<Rightarrow> (string \<rightharpoonup> string) \<Rightarrow> call_error + string \<times> server \<times> effect list" where
  "handle_call_tool w s name arguments =
     (if name = ''read_file_secure'' then
        (case arguments ''path'' of
           None \<Rightarrow> Inl (KeyError ''path'')
         | Some path \<Rightarrow> Inr (handle_file_read w s path))
      else if name = ''list_files_secure'' then
        (let path = (case arguments ''path'' of None \<Rightarrow> ''/workspace/test-files'' | Some p \<Rightarrow> p)
         in Inr (handle_list_files w s path))
      else Inl (ValueError (''Unknown tool: '' @ name)))"

text \<open>
  A run of the process: the calls one server object receives, one after the other, each
  with the world it finds. A call that raises leaves the server as it was.
\<close>

type_synonym tool_call = "world \<times> string \<times> (string \<rightharpoonup> string)"

fun run :: "server \<Rightarrow> tool_call list \<Rightarrow> server \<times> effect list" where
  "run s [] = (s, [])"
| "run s ((w, name, arguments) # calls) =
     (case handle_call_tool w s name arguments of
        Inl e \<Rightarrow> run s calls
      | Inr (text, s', tr) \<Rightarrow> (case run s' calls of (s'', tr') \<Rightarrow> (s'', tr @ tr')))"

section \<open>The test client\<close>

text \<open>
  \<open>test_client.py\<close>, the other program of the repository. Each of its two test functions
  creates a server object of its own (\<open>SecurityMCPServer()\<close>, lines 19 and 38), calls one
  handler on it and prints the text returned. \<open>main\<close> (lines 46-66) lists the default
  directory and then reads the files named on the command line, or three default files.
  All of it runs in one process; \<open>ws i\<close> is the world that the read of file number \<open>i\<close>
  finds.
\<close>

definition rule_line :: string where
  "rule_line = concat (replicate 40 [CHR 0xE2, CHR 0x94, CHR 0x81])"

definition test_file_access :: "world \<Rightarrow> string \<Rightarrow> effect list" where
  "test_file_access w filepath =
     (let server = init_server
      in case handle_file_read w server filepath of
           (result, server', tr) \<Rightarrow>
             [Print (nl @ [CHR 0xF0, CHR 0x9F, CHR 0xA7, CHR 0xAA] @ '' Testing file access: '' @ filepath),
              Print rule_line]
             @ tr @ [Print result])"

definition test_directory_listing :: "world \<Rightarrow> string \<Rightarrow> effect list" where
  "test_directory_listing w dirpath =
     (let server = init_server
      in case handle_list_files w server dirpath of
           (result, server', tr) \<Rightarrow>
             [Print (nl @ folder_icon @ '' Testing directory listing: '' @ dirpath),
              Print rule_line]
             @ tr @ [Print result])"

fun test_files_loop :: "(nat \<Rightarrow> world) \<Rightarrow> nat \<Rightarrow> string list \<Rightarrow> effect list" where
  "test_files_loop ws i [] = []"
| "test_files_loop ws i (filepath # test_files) =
     test_file_access (ws i) filepath @ test_files_loop ws (Suc i) test_files"

definition test_client_main :: "world \<Rightarrow> (nat \<Rightarrow> world) \<Rightarrow> string list \<Rightarrow> effect list" where
  "test_client_main w0 ws argv =
     (let test_files =
            (if argv \<noteq> [] then argv
             else [''/workspace/test-files/public-data.txt'',
                   ''/workspace/test-files/user-credentials.secret'',
                   ''/workspace/test-files/api-keys.credentials''])
      in [Print ([CHR 0xF0, CHR 0x9F, CHR 0x9A, CHR 0x80] @ '' SSF Security MCP Server - Test Client''),
          Print ''========================================'']
         @ test_directory_listing w0 ''/workspace/test-files''
         @ test_files_loop ws 0 test_files
         @ [Print (nl @ check_mark @ '' Test completed!''),
            Print (nl @ [CHR 0xF0, CHR 0x9F, CHR 0x92, CHR 0xA1]
                   @ '' Check the SSF Receiver dashboard at http://localhost:8082''),
            Print ''   to see any security events that were generated.''])"

section \<open>A world to run on\<close>

text \<open>
  The laboratory of the specification's scenarios: the directory \<open>/workspace/test-files\<close>
  with two files and a directory of keys, a directory beside it whose name begins the same
  way, the directory \<open>/etc\<close>, and no receiver.
\<close>

definition lab_files :: "(string \<times> string) list" where
  "lab_files =
     [(''/workspace/test-files/public-data.txt'', ''hello''),
      (''/workspace/test-files/api-keys.credentials'', ''token=123''),
      (''/workspace/test-files/secure/keys/readme.txt'', ''keys''),
      (''/workspace/test-files-evil/notes.txt'', ''outside''),
      (''/etc/passwd'', ''root:x:0:0'')]"

definition lab_dirs :: "(string \<times> string list) list" where
  "lab_dirs =
     [(''/workspace/test-files'', [''public-data.txt'', ''api-keys.credentials'']),
      (''/workspace/test-files/secure/keys'', [''readme.txt'', ''old'']),
      (''/workspace/test-files/secure/keys/old'', []),
      (''/workspace/test-files-evil'', [''notes.txt'']),
      (''/etc'', [''passwd''])]"

definition lab_world :: world where
  "lab_world =
     \<lparr> resolve = (\<lambda>p. Inr p),
       path_exists = (\<lambda>p. Inr (p \<in> set (map fst lab_files) \<or> p \<in> set (map fst lab_dirs))),
       is_file = (\<lambda>p. Inr (p \<in> set (map fst lab_files))),
       is_dir = (\<lambda>p. Inr (p \<in> set (map fst lab_dirs))),
       read_text = (\<lambda>p. case map_of lab_files p of None \<Rightarrow> Inl ''No such file'' | Some c \<Rightarrow> Inr c),
       iterdir = (\<lambda>p. case map_of lab_dirs p of None \<Rightarrow> Inl ''Not a directory'' | Some ns \<Rightarrow> Inr ns),
       time_jti = 1700000000,
       time_iat = 1700000000,
       time_ms = 1700000000123,
       now_iso = ''2023-11-14T22:13:20'',
       post = (\<lambda>url ev. Inl ''Cannot connect to host localhost:8082'') \<rparr>"

section \<open>Facts about strings\<close>

lemma startswith_iff: "startswith s p \<longleftrightarrow> (\<exists>r. s = p @ r)"
proof
  assume "startswith s p"
  then have "s = p @ drop (length p) s"
    unfolding startswith_def by (metis append_take_drop_id)
  then show "\<exists>r. s = p @ r" ..
next
  assume "\<exists>r. s = p @ r"
  then show "startswith s p"
    unfolding startswith_def by auto
qed

lemma str_contains_iff: "str_contains p s \<longleftrightarrow> (\<exists>l r. s = l @ p @ r)"
proof (induction s)
  case Nil
  then show ?case by auto
next
  case (Cons c cs)
  show ?case
  proof
    assume "str_contains p (c # cs)"
    then consider "startswith (c # cs) p" | "str_contains p cs" by auto
    then show "\<exists>l r. c # cs = l @ p @ r"
    proof cases
      case 1
      then obtain r where "c # cs = p @ r" using startswith_iff by blast
      then have "c # cs = [] @ p @ r" by simp
      then show ?thesis by blast
    next
      case 2
      then obtain l r where "cs = l @ p @ r" using Cons.IH by blast
      then have "c # cs = (c # l) @ p @ r" by simp
      then show ?thesis by blast
    qed
  next
    assume "\<exists>l r. c # cs = l @ p @ r"
    then obtain l r where lr: "c # cs = l @ p @ r" by blast
    show "str_contains p (c # cs)"
    proof (cases l)
      case Nil
      with lr have "startswith (c # cs) p" using startswith_iff by auto
      then show ?thesis by simp
    next
      case (Cons d l')
      with lr have "cs = l' @ p @ r" by simp
      then have "str_contains p cs" using Cons.IH by blast
      then show ?thesis by simp
    qed
  qed
qed

lemma lower_append: "lower (a @ b) = lower a @ lower b"
  by (simp add: lower_def)

lemma str_contains_append: "str_contains p s \<Longrightarrow> str_contains p (s @ t)"
proof -
  assume "str_contains p s"
  then obtain l r where "s = l @ p @ r" using str_contains_iff by blast
  then have "s @ t = l @ p @ (r @ t)" by simp
  then show ?thesis using str_contains_iff by blast
qed

lemma str_nat_small: "n < 10 \<Longrightarrow> str_nat n = [digit_char n]"
  by (simp add: str_nat.simps)

lemma str_nat_big: "10 \<le> n \<Longrightarrow> str_nat n = str_nat (n div 10) @ [digit_char (n mod 10)]"
  by (subst str_nat.simps) simp

lemma digit_char_inj: "a < 10 \<Longrightarrow> b < 10 \<Longrightarrow> digit_char a = digit_char b \<Longrightarrow> a = b"
proof -
  assume a: "a < 10" and b: "b < 10" and eq: "digit_char a = digit_char b"
  have d: "distinct ''0123456789''" by simp
  have "a < length ''0123456789''" "b < length ''0123456789''" using a b by simp_all
  then have "(''0123456789'' ! a = ''0123456789'' ! b) = (a = b)"
    by (rule nth_eq_iff_index_eq [OF d])
  with eq show "a = b" by (simp only: digit_char_def)
qed

lemma digit_char_not_dash: "d < 10 \<Longrightarrow> digit_char d \<noteq> CHR ''-''"
proof -
  assume "d < 10"
  then have "d < length ''0123456789''" by simp
  then have "digit_char d \<in> set ''0123456789''" unfolding digit_char_def by (rule nth_mem)
  moreover have "CHR ''-'' \<notin> set ''0123456789''" by simp
  ultimately show ?thesis by metis
qed

lemma str_nat_no_dash: "CHR ''-'' \<notin> set (str_nat n)"
proof (induction n rule: str_nat.induct)
  case (1 n)
  show ?case
  proof (cases "n < 10")
    case True
    then show ?thesis using digit_char_not_dash [of n] by (auto simp: str_nat_small)
  next
    case False
    then have "CHR ''-'' \<notin> set (str_nat (n div 10))" using "1.IH" by simp
    moreover have "digit_char (n mod 10) \<noteq> CHR ''-''" by (rule digit_char_not_dash) simp
    ultimately show ?thesis using False by (auto simp: str_nat_big)
  qed
qed

lemma str_nat_nonempty: "str_nat n \<noteq> []"
  by (subst str_nat.simps) simp

lemma str_nat_length_big: "10 \<le> n \<Longrightarrow> 2 \<le> length (str_nat n)"
proof -
  assume n: "10 \<le> n"
  have "1 \<le> length (str_nat (n div 10))"
    using str_nat_nonempty [of "n div 10"] by (cases "str_nat (n div 10)") simp_all
  moreover have "length (str_nat n) = length (str_nat (n div 10)) + 1"
    by (simp only: str_nat_big [OF n] length_append list.size)
  ultimately show ?thesis by simp
qed

lemma str_nat_inj: "str_nat n = str_nat m \<Longrightarrow> n = m"
proof (induction n arbitrary: m rule: str_nat.induct)
  case (1 n)
  show ?case
  proof (cases "n < 10")
    case n: True
    show ?thesis
    proof (cases "m < 10")
      case True
      from n True "1.prems" have "digit_char n = digit_char m"
        by (simp add: str_nat_small)
      with n True show ?thesis by (rule digit_char_inj)
    next
      case False
      then have "2 \<le> length (str_nat m)" by (simp add: str_nat_length_big)
      moreover have "length (str_nat n) = 1" using n by (simp add: str_nat_small)
      ultimately show ?thesis using "1.prems" by simp
    qed
  next
    case n: False
    show ?thesis
    proof (cases "m < 10")
      case True
      have "2 \<le> length (str_nat n)" using n by (simp add: str_nat_length_big)
      moreover have "length (str_nat m) = 1" using True by (simp add: str_nat_small)
      ultimately show ?thesis using "1.prems" by simp
    next
      case False
      have "str_nat (n div 10) @ [digit_char (n mod 10)] = str_nat (m div 10) @ [digit_char (m mod 10)]"
        using n False "1.prems" by (simp add: str_nat_big)
      then have eq: "str_nat (n div 10) = str_nat (m div 10)"
        and d: "digit_char (n mod 10) = digit_char (m mod 10)"
        by simp_all
      from n eq have q: "n div 10 = m div 10" by (rule "1.IH")
      have "n mod 10 < 10" "m mod 10 < 10" by simp_all
      then have r: "n mod 10 = m mod 10" using d by (rule digit_char_inj)
      have "n = n div 10 * 10 + n mod 10" by simp
      also have "\<dots> = m div 10 * 10 + m mod 10" by (simp only: q r)
      also have "\<dots> = m" by simp
      finally show ?thesis .
    qed
  qed
qed

lemma after_last_dash:
  assumes "CHR ''-'' \<notin> set x" and "CHR ''-'' \<notin> set y" and "a @ ''-'' @ x = b @ ''-'' @ y"
  shows "x = y"
proof -
  have tw: "takeWhile (\<lambda>c. c \<noteq> CHR ''-'') (rev (u @ ''-'' @ v)) = rev v"
    if "CHR ''-'' \<notin> set v" for u v :: string
  proof -
    have "\<And>c. c \<in> set (rev v) \<Longrightarrow> c \<noteq> CHR ''-''" using that by auto
    then have "takeWhile (\<lambda>c. c \<noteq> CHR ''-'') (rev v @ CHR ''-'' # rev u)
                 = rev v @ takeWhile (\<lambda>c. c \<noteq> CHR ''-'') (CHR ''-'' # rev u)"
      by (rule takeWhile_append2)
    then show ?thesis by simp
  qed
  have "rev x = takeWhile (\<lambda>c. c \<noteq> CHR ''-'') (rev (a @ ''-'' @ x))"
    using tw [OF assms(1)] by simp
  also have "\<dots> = takeWhile (\<lambda>c. c \<noteq> CHR ''-'') (rev (b @ ''-'' @ y))"
    using assms(3) by simp
  also have "\<dots> = rev y" using tw [OF assms(2)] by simp
  finally show ?thesis by simp
qed

lemma jti_inj:
  assumes "0 \<le> c" and "0 \<le> d"
    and "''event-'' @ str_int t @ ''-'' @ str_int c = ''event-'' @ str_int u @ ''-'' @ str_int d"
  shows "c = d"
proof -
  have c: "str_int c = str_nat (nat c)" and d: "str_int d = str_nat (nat d)"
    using assms by (simp_all add: str_int_def)
  have "(''event-'' @ str_int t) @ ''-'' @ str_nat (nat c) = (''event-'' @ str_int u) @ ''-'' @ str_nat (nat d)"
    using assms(3) c d by simp
  then have "str_nat (nat c) = str_nat (nat d)"
    by (rule after_last_dash [OF str_nat_no_dash str_nat_no_dash])
  then have "nat c = nat d" by (rule str_nat_inj)
  with assms show ?thesis by simp
qed

section \<open>Facts about the classifier\<close>

lemma is_sensitive_file_iff:
  "is_sensitive_file s filepath \<longleftrightarrow>
     (\<exists>p \<in> set (monitored_patterns s). \<exists>l r. lower filepath = l @ p @ r)"
  by (simp add: is_sensitive_file_def list_ex_iff str_contains_iff)

lemma is_sensitive_file_append:
  "is_sensitive_file s a \<Longrightarrow> is_sensitive_file s (a @ b)"
  by (auto simp: is_sensitive_file_def list_ex_iff lower_append intro: str_contains_append)

lemma is_sensitive_file_lower_patterns:
  "\<forall>p \<in> set (monitored_patterns s). lower p = p \<Longrightarrow>
     is_sensitive_file s filepath = spec_is_sensitive (monitored_patterns s) filepath"
  by (simp add: is_sensitive_file_def spec_is_sensitive_def list_ex_iff)

lemmas classifier_eval =
  is_sensitive_file_def spec_is_sensitive_def init_server_def lower_def lower_char_def startswith_def

lemmas lab_eval =
  lab_world_def lab_files_def lab_dirs_def within_sandbox_def classifier_eval

section \<open>Facts about event generation\<close>

lemma posted_append: "posted (tr @ tr') = posted tr @ posted tr'"
  by (induction tr rule: posted.induct) simp_all

lemma generate_caep_event_state:
  "fst (generate_caep_event w s filepath access) = s\<lparr>event_count := event_count s + 1\<rparr>"
  by (simp add: generate_caep_event_def Let_def)

lemma generate_caep_event_posted:
  "posted (snd (generate_caep_event w s filepath access))
     = [make_event w (s\<lparr>event_count := event_count s + 1\<rparr>) filepath access]"
  by (simp add: generate_caep_event_def Let_def)

section \<open>Facts about reading\<close>

lemma handle_file_read_resolved:
  assumes "resolve w filepath = Inr abs_path"
  shows "\<exists>text extra.
           handle_file_read w s filepath =
             (text,
              (if is_sensitive_file s abs_path
               then fst (generate_caep_event w s abs_path ''file_access'') else s),
              (if is_sensitive_file s abs_path
               then snd (generate_caep_event w s abs_path ''file_access'') else []) @ extra)
           \<and> posted extra = []"
  using assms
  by (auto simp: handle_file_read_def handle_file_read_try_def Let_def
      split: sum.splits prod.splits)

lemma handle_file_read_unresolved:
  assumes "resolve w filepath = Inl e"
  shows "handle_file_read w s filepath = (error_reading e, s, [])"
  using assms by (simp add: handle_file_read_def handle_file_read_try_def)

lemma handle_file_read_denied:
  assumes "resolve w filepath = Inr abs_path" and "\<not> within_sandbox abs_path"
  shows "fst (handle_file_read w s filepath) = access_denied abs_path
         \<and> texts_read (snd (snd (handle_file_read w s filepath))) = []"
  using assms
  by (auto simp: handle_file_read_def handle_file_read_try_def generate_caep_event_def Let_def
      split: sum.splits prod.splits)

section \<open>Sandbox containment\<close>

text \<open>
  C1. The specification asks for containment by path segments: a path is within the
  sandbox when it is the root or begins with the root followed by the separator, so that
  the sibling \<open>/workspace/test-files-evil\<close> is outside \<open>/workspace/test-files\<close>. The test of
  \<open>handle_file_read\<close> is a prefix test on the string, and it accepts a path under that
  sibling directory, which the containment of the specification rejects.
\<close>

theorem sibling_directory_passes_prefix_test:
  "within_sandbox ''/workspace/test-files-evil/notes.txt''
   \<and> \<not> spec_within_sandbox ''/workspace/test-files'' ''/workspace/test-files-evil/notes.txt''"
  by (simp add: within_sandbox_def spec_within_sandbox_def startswith_def)

lemma spec_within_sandbox_passes:
  "spec_within_sandbox ''/workspace/test-files'' abs_path \<Longrightarrow> within_sandbox abs_path"
  unfolding spec_within_sandbox_def within_sandbox_def startswith_iff by auto

text \<open>
  C2. For a path outside the sandbox root, \<open>handle_file_read\<close> is to return the denial and
  no content. In the laboratory, the file \<open>/workspace/test-files-evil/notes.txt\<close> is outside
  the root \<open>/workspace/test-files\<close>, and \<open>handle_file_read\<close> reads it and returns its
  content.
\<close>

theorem content_returned_outside_sandbox:
  "\<not> spec_within_sandbox ''/workspace/test-files'' ''/workspace/test-files-evil/notes.txt''
   \<and> handle_file_read lab_world init_server ''/workspace/test-files-evil/notes.txt''
       = (file_content ''/workspace/test-files-evil/notes.txt'' False ''outside'', init_server,
          [ReadText ''/workspace/test-files-evil/notes.txt''])"
  by (simp add: handle_file_read_def handle_file_read_try_def spec_within_sandbox_def lab_eval)

section \<open>Classification\<close>

text \<open>
  C4, as amended. \<open>is_sensitive_file\<close> holds exactly when one of the configured patterns,
  taken as it is written, occurs in the lower-cased path. When every configured pattern is
  lower-case this is the classifier of the specification, which lower-cases the patterns.
  The result depends on the set of patterns only, not on their order.
\<close>

theorem is_sensitive_file_classifies:
  "(is_sensitive_file s filepath \<longleftrightarrow>
      (\<exists>p \<in> set (monitored_patterns s). \<exists>l r. lower filepath = l @ p @ r))
   \<and> ((\<forall>p \<in> set (monitored_patterns s). lower p = p) \<longrightarrow>
        is_sensitive_file s filepath = spec_is_sensitive (monitored_patterns s) filepath)
   \<and> (set (monitored_patterns s') = set (monitored_patterns s) \<longrightarrow>
        is_sensitive_file s' filepath = is_sensitive_file s filepath)"
proof (intro conjI impI)
  show "is_sensitive_file s filepath \<longleftrightarrow>
      (\<exists>p \<in> set (monitored_patterns s). \<exists>l r. lower filepath = l @ p @ r)"
    by (rule is_sensitive_file_iff)
next
  assume "\<forall>p \<in> set (monitored_patterns s). lower p = p"
  then show "is_sensitive_file s filepath = spec_is_sensitive (monitored_patterns s) filepath"
    by (rule is_sensitive_file_lower_patterns)
next
  assume "set (monitored_patterns s') = set (monitored_patterns s)"
  then show "is_sensitive_file s' filepath = is_sensitive_file s filepath"
    by (simp add: is_sensitive_file_iff)
qed

theorem is_sensitive_file_classifies_witness:
  "list_all (\<lambda>p. lower p = p) (monitored_patterns init_server)
   \<and> set (monitored_patterns (init_server\<lparr>monitored_patterns :=
            [''password'', ''api-key'', ''/secure/'', ''.credentials'', ''.secret'']\<rparr>))
       = set (monitored_patterns init_server)
   \<and> spec_is_sensitive (monitored_patterns init_server) ''/workspace/test-files/API-Keys.credentials''
   \<and> is_sensitive_file init_server ''/workspace/test-files/API-Keys.credentials''
   \<and> is_sensitive_file (init_server\<lparr>monitored_patterns :=
            [''password'', ''api-key'', ''/secure/'', ''.credentials'', ''.secret'']\<rparr>)
          ''/workspace/test-files/API-Keys.credentials''"
proof -
  let ?s' = "init_server\<lparr>monitored_patterns :=
            [''password'', ''api-key'', ''/secure/'', ''.credentials'', ''.secret'']\<rparr>"
  let ?p = "''/workspace/test-files/API-Keys.credentials''"
  have low: "\<forall>p \<in> set (monitored_patterns init_server). lower p = p"
    by (simp add: init_server_def lower_def lower_char_def)
  have perm: "set (monitored_patterns ?s') = set (monitored_patterns init_server)"
    by (simp add: init_server_def insert_commute)
  have here: "is_sensitive_file init_server ?p"
    by (simp add: classifier_eval)
  note c = is_sensitive_file_classifies [of init_server ?p ?s']
  have "is_sensitive_file init_server ?p = spec_is_sensitive (monitored_patterns init_server) ?p"
    using c [THEN conjunct2, THEN conjunct1] low by (rule mp)
  with here have spec: "spec_is_sensitive (monitored_patterns init_server) ?p" by (simp only:)
  have "is_sensitive_file ?s' ?p = is_sensitive_file init_server ?p"
    using c [THEN conjunct2, THEN conjunct2] perm by (rule mp)
  with here have there: "is_sensitive_file ?s' ?p" by (simp only:)
  from low have "list_all (\<lambda>p. lower p = p) (monitored_patterns init_server)"
    by (simp only: list_all_iff)
  with perm spec here there show ?thesis by (intro conjI)
qed

text \<open>
  The claim as it is stated fails for a pattern that has an upper-case letter: the
  specification lower-cases it and finds it in the path, \<open>is_sensitive_file\<close> looks for it
  as it is written and does not.
\<close>

theorem upper_case_pattern_is_not_found:
  "\<not> (is_sensitive_file (init_server\<lparr>monitored_patterns := [''Password'']\<rparr>)
          ''/workspace/test-files/password.txt''
        \<longleftrightarrow> spec_is_sensitive [''Password''] ''/workspace/test-files/password.txt'')"
  by (simp add: classifier_eval)

section \<open>Facts about listing\<close>

lemma handle_list_files_frame:
  "fst (snd (handle_list_files w s dirpath)) = s
   \<and> posted (snd (snd (handle_list_files w s dirpath))) = []"
  by (auto simp: handle_list_files_def handle_list_files_try_def split: sum.splits)

lemma handle_list_files_listing:
  assumes "resolve w dirpath = Inr abs_path"
    and "path_exists w abs_path = Inr True"
    and "is_dir w abs_path = Inr True"
    and "iterdir w abs_path = Inr names"
    and "list_items w s abs_path names = Inr files"
  shows "handle_list_files w s dirpath = (dir_listing abs_path files, s, [IterDir abs_path])"
  using assms by (simp add: handle_list_files_def handle_list_files_try_def)

lemma is_sensitive_file_child:
  "is_sensitive_file s abs_path \<Longrightarrow> is_sensitive_file s (child abs_path name)"
  by (simp add: child_def is_sensitive_file_append)

lemma list_items_labels:
  assumes "\<forall>n \<in> set names. \<not> is_sensitive_file s (child abs_path n) \<longrightarrow>
             (\<exists>d. is_dir w (child abs_path n) = Inr d)"
  shows "list_items w s abs_path names
           = Inr (map (\<lambda>n. spec_label w s (child abs_path n) @ '' '' @ n) names)"
  using assms
proof (induction names)
  case Nil
  then show ?case by simp
next
  case (Cons n names)
  then have rest: "list_items w s abs_path names
           = Inr (map (\<lambda>n. spec_label w s (child abs_path n) @ '' '' @ n) names)"
    by simp
  have "item_icon w s (child abs_path n) = Inr (spec_label w s (child abs_path n))"
  proof (cases "is_sensitive_file s (child abs_path n)")
    case True
    then show ?thesis by (simp add: item_icon_def spec_label_def)
  next
    case False
    with Cons.prems obtain d where "is_dir w (child abs_path n) = Inr d" by auto
    with False show ?thesis by (simp add: item_icon_def spec_label_def)
  qed
  with rest show ?case by simp
qed

section \<open>Facts about calls and runs\<close>

lemma handle_file_read_effect:
  "(fst (snd (handle_file_read w s filepath)) = s
      \<and> posted (snd (snd (handle_file_read w s filepath))) = [])
   \<or> (\<exists>abs_path.
        fst (snd (handle_file_read w s filepath)) = s\<lparr>event_count := event_count s + 1\<rparr>
        \<and> posted (snd (snd (handle_file_read w s filepath)))
            = [make_event w (s\<lparr>event_count := event_count s + 1\<rparr>) abs_path ''file_access''])"
proof (cases "resolve w filepath")
  case (Inl e)
  then show ?thesis by (simp add: handle_file_read_unresolved)
next
  case (Inr abs_path)
  from handle_file_read_resolved [OF Inr, of s] obtain res extra where
    r: "handle_file_read w s filepath =
             (res,
              (if is_sensitive_file s abs_path
               then fst (generate_caep_event w s abs_path ''file_access'') else s),
              (if is_sensitive_file s abs_path
               then snd (generate_caep_event w s abs_path ''file_access'') else []) @ extra)"
    and e: "posted extra = []" by blast
  show ?thesis
  proof (cases "is_sensitive_file s abs_path")
    case True
    with r e have "fst (snd (handle_file_read w s filepath)) = s\<lparr>event_count := event_count s + 1\<rparr>
        \<and> posted (snd (snd (handle_file_read w s filepath)))
            = [make_event w (s\<lparr>event_count := event_count s + 1\<rparr>) abs_path ''file_access'']"
      by (simp add: posted_append generate_caep_event_state generate_caep_event_posted)
    then show ?thesis by blast
  next
    case False
    with r e show ?thesis by (simp add: posted_append)
  qed
qed

lemma handle_call_tool_effect:
  assumes "handle_call_tool w s name arguments = Inr (text, s', tr)"
  shows "(s' = s \<and> posted tr = [])
         \<or> (s' = s\<lparr>event_count := event_count s + 1\<rparr>
             \<and> (\<exists>ev. posted tr = [ev]
                  \<and> jti ev = ''event-'' @ str_int (time_jti w) @ ''-'' @ str_int (event_count s + 1)))"
proof (cases "name = ''read_file_secure''")
  case True
  with assms obtain path where "handle_file_read w s path = (text, s', tr)"
    by (auto simp: handle_call_tool_def split: option.splits)
  with handle_file_read_effect [of w s path] show ?thesis
    by (auto simp: make_event_def)
next
  case False
  with assms obtain path where "handle_list_files w s path = (text, s', tr)"
    by (auto simp: handle_call_tool_def Let_def split: if_splits)
  with handle_list_files_frame [of w s path] show ?thesis by simp
qed

lemma run_counts:
  "fst (run s calls)
     = s\<lparr>event_count := event_count s + int (length (posted (snd (run s calls))))\<rparr>"
proof (induction calls arbitrary: s)
  case Nil
  show ?case by simp
next
  case (Cons call calls)
  obtain w name arguments where call: "call = (w, name, arguments)" by (cases call)
  show ?case
  proof (cases "handle_call_tool w s name arguments")
    case (Inl e)
    with call Cons.IH [of s] show ?thesis by simp
  next
    case (Inr r)
    obtain res s' tr where r: "r = (res, s', tr)" by (cases r)
    obtain s'' tr' where rest: "run s' calls = (s'', tr')" by (cases "run s' calls")
    from Cons.IH [of s'] rest
    have s'': "s'' = s'\<lparr>event_count := event_count s' + int (length (posted tr'))\<rparr>" by simp
    from Inr r have "handle_call_tool w s name arguments = Inr (res, s', tr)" by simp
    from handle_call_tool_effect [OF this]
    have "s' = s\<lparr>event_count := event_count s + int (length (posted tr))\<rparr>" by auto
    with s'' have "s'' = s\<lparr>event_count := event_count s + int (length (posted (tr @ tr')))\<rparr>"
      by (simp add: posted_append)
    with call Inr r rest show ?thesis by simp
  qed
qed

lemma run_jtis:
  assumes "0 \<le> event_count s"
  shows "distinct (map jti (posted (snd (run s calls))))
         \<and> (\<forall>j \<in> set (map jti (posted (snd (run s calls)))).
               \<exists>t c. event_count s < c \<and> j = ''event-'' @ str_int t @ ''-'' @ str_int c)"
  using assms
proof (induction calls arbitrary: s)
  case Nil
  show ?case by simp
next
  case (Cons call calls)
  obtain w name arguments where call: "call = (w, name, arguments)" by (cases call)
  show ?case
  proof (cases "handle_call_tool w s name arguments")
    case (Inl e)
    with call Cons.IH [OF Cons.prems] show ?thesis by simp
  next
    case (Inr r)
    obtain res s' tr where r: "r = (res, s', tr)" by (cases r)
    obtain s'' tr' where rest: "run s' calls = (s'', tr')" by (cases "run s' calls")
    from call Inr r rest
    have whole: "posted (snd (run s (call # calls))) = posted tr @ posted tr'"
      by (simp add: posted_append)
    from Inr r have "handle_call_tool w s name arguments = Inr (res, s', tr)" by simp
    from handle_call_tool_effect [OF this]
    consider (quiet) "s' = s" "posted tr = []"
      | (emit) ev where "s' = s\<lparr>event_count := event_count s + 1\<rparr>" "posted tr = [ev]"
          "jti ev = ''event-'' @ str_int (time_jti w) @ ''-'' @ str_int (event_count s + 1)"
      by blast
    then show ?thesis
    proof cases
      case quiet
      with Cons.IH [OF Cons.prems] rest whole show ?thesis by simp
    next
      case emit
      from emit(1) Cons.prems have pos: "0 \<le> event_count s'" and s': "event_count s' = event_count s + 1"
        by simp_all
      from Cons.IH [OF pos] rest
      have d: "distinct (map jti (posted tr'))"
        and later: "\<forall>j \<in> set (map jti (posted tr')).
               \<exists>t c. event_count s' < c \<and> j = ''event-'' @ str_int t @ ''-'' @ str_int c"
        by simp_all
      have fresh: "jti ev \<notin> set (map jti (posted tr'))"
      proof
        assume "jti ev \<in> set (map jti (posted tr'))"
        with later obtain t c where c: "event_count s' < c"
          and j: "jti ev = ''event-'' @ str_int t @ ''-'' @ str_int c" by blast
        from j emit(3)
        have "''event-'' @ str_int (time_jti w) @ ''-'' @ str_int (event_count s + 1)
                = ''event-'' @ str_int t @ ''-'' @ str_int c" by simp
        moreover have "0 \<le> event_count s + 1" "0 \<le> c" using Cons.prems c s' by simp_all
        ultimately have "event_count s + 1 = c" by (rule jti_inj [rotated 2])
        with c s' show False by simp
      qed
      have first: "\<exists>t c. event_count s < c \<and> jti ev = ''event-'' @ str_int t @ ''-'' @ str_int c"
        using emit(3) by (intro exI [of _ "time_jti w"] exI [of _ "event_count s + 1"]) simp
      have "\<forall>j \<in> set (map jti (posted tr')).
               \<exists>t c. event_count s < c \<and> j = ''event-'' @ str_int t @ ''-'' @ str_int c"
      proof
        fix j assume "j \<in> set (map jti (posted tr'))"
        with later obtain t c where "event_count s' < c" "j = ''event-'' @ str_int t @ ''-'' @ str_int c"
          by blast
        with s' have "event_count s < c \<and> j = ''event-'' @ str_int t @ ''-'' @ str_int c" by simp
        then show "\<exists>t c. event_count s < c \<and> j = ''event-'' @ str_int t @ ''-'' @ str_int c" by blast
      qed
      with d fresh first whole emit(2) show ?thesis by simp
    qed
  qed
qed

section \<open>Emission on reading\<close>

text \<open>
  C3. One call of \<open>handle_file_read\<close> on a path that resolves sends exactly one event, for
  the resolved path and with access type \<open>file_access\<close>, when \<open>is_sensitive_file\<close> holds
  of the resolved path, and no event otherwise; nothing asks whether the path exists or
  lies within the sandbox. With lower-case patterns, as configured, \<open>is_sensitive_file\<close>
  is the case-insensitive match of the specification.
\<close>

theorem read_emits_once_iff_sensitive:
  assumes "resolve w filepath = Inr abs_path"
  shows "map (\<lambda>ev. (file_path ev, access_type ev)) (posted (snd (snd (handle_file_read w s filepath))))
           = (if is_sensitive_file s abs_path then [(abs_path, ''file_access'')] else [])
         \<and> ((\<forall>p \<in> set (monitored_patterns s). lower p = p) \<longrightarrow>
              is_sensitive_file s abs_path = spec_is_sensitive (monitored_patterns s) abs_path)"
proof
  from handle_file_read_resolved [OF assms, of s] obtain res extra where
    r: "handle_file_read w s filepath =
             (res,
              (if is_sensitive_file s abs_path
               then fst (generate_caep_event w s abs_path ''file_access'') else s),
              (if is_sensitive_file s abs_path
               then snd (generate_caep_event w s abs_path ''file_access'') else []) @ extra)"
    and e: "posted extra = []" by blast
  from r e
  show "map (\<lambda>ev. (file_path ev, access_type ev)) (posted (snd (snd (handle_file_read w s filepath))))
           = (if is_sensitive_file s abs_path then [(abs_path, ''file_access'')] else [])"
    by (simp add: posted_append generate_caep_event_posted make_event_def)
next
  show "(\<forall>p \<in> set (monitored_patterns s). lower p = p) \<longrightarrow>
              is_sensitive_file s abs_path = spec_is_sensitive (monitored_patterns s) abs_path"
    using is_sensitive_file_lower_patterns by blast
qed

theorem read_emits_once_iff_sensitive_witness:
  "resolve lab_world ''/home/me/.secret'' = Inr ''/home/me/.secret''
   \<and> list_all (\<lambda>p. lower p = p) (monitored_patterns init_server)
   \<and> \<not> within_sandbox ''/home/me/.secret''
   \<and> spec_is_sensitive (monitored_patterns init_server) ''/home/me/.secret''
   \<and> map (\<lambda>ev. (file_path ev, access_type ev))
        (posted (snd (snd (handle_file_read lab_world init_server ''/home/me/.secret''))))
       = [(''/home/me/.secret'', ''file_access'')]"
proof -
  let ?p = "''/home/me/.secret''"
  have res: "resolve lab_world ?p = Inr ?p" by (simp add: lab_world_def)
  have low: "\<forall>p \<in> set (monitored_patterns init_server). lower p = p"
    by (simp add: init_server_def lower_def lower_char_def)
  have out: "\<not> within_sandbox ?p" by (simp add: within_sandbox_def startswith_def)
  have sens: "is_sensitive_file init_server ?p" by (simp add: classifier_eval)
  note c = read_emits_once_iff_sensitive [OF res, of init_server]
  have "is_sensitive_file init_server ?p = spec_is_sensitive (monitored_patterns init_server) ?p"
    using c [THEN conjunct2] low by (rule mp)
  with sens have spec: "spec_is_sensitive (monitored_patterns init_server) ?p" by (simp only:)
  have "map (\<lambda>ev. (file_path ev, access_type ev))
        (posted (snd (snd (handle_file_read lab_world init_server ?p))))
       = (if is_sensitive_file init_server ?p then [(?p, ''file_access'')] else [])"
    by (rule c [THEN conjunct1])
  with sens have one: "map (\<lambda>ev. (file_path ev, access_type ev))
        (posted (snd (snd (handle_file_read lab_world init_server ?p)))) = [(?p, ''file_access'')]"
    by (simp only: if_True)
  from low have "list_all (\<lambda>p. lower p = p) (monitored_patterns init_server)"
    by (simp only: list_all_iff)
  with res out spec one show ?thesis by (intro conjI)
qed

section \<open>Listing leaves the counter alone\<close>

text \<open>
  C9. \<open>handle_list_files\<close> returns the server as it received it and sends no event, for
  every path and every world, and so does a call of the tool \<open>list_files_secure\<close>.
\<close>

theorem list_files_emits_nothing:
  "fst (snd (handle_list_files w s dirpath)) = s
   \<and> posted (snd (snd (handle_list_files w s dirpath))) = []
   \<and> (\<exists>res tr. handle_call_tool w s ''list_files_secure'' arguments = Inr (res, s, tr)
          \<and> posted tr = [])"
proof (intro conjI)
  show "fst (snd (handle_list_files w s dirpath)) = s"
    using handle_list_files_frame [of w s dirpath] by simp
  show "posted (snd (snd (handle_list_files w s dirpath))) = []"
    using handle_list_files_frame [of w s dirpath] by simp
  let ?path = "case arguments ''path'' of None \<Rightarrow> ''/workspace/test-files'' | Some p \<Rightarrow> p"
  obtain res s' tr where h: "handle_list_files w s ?path = (res, s', tr)"
    by (cases "handle_list_files w s ?path")
  with handle_list_files_frame [of w s ?path] have "s' = s" "posted tr = []" by simp_all
  with h have "handle_call_tool w s ''list_files_secure'' arguments = Inr (res, s, tr)"
    by (simp add: handle_call_tool_def)
  with \<open>posted tr = []\<close>
  show "\<exists>res tr. handle_call_tool w s ''list_files_secure'' arguments = Inr (res, s, tr)
          \<and> posted tr = []" by blast
qed

section \<open>The event counter\<close>

text \<open>
  C6, as amended. The counter belongs to the server object. \<open>generate_caep_event\<close> adds
  one to \<open>event_count\<close> and changes nothing else of the server. Over any run of calls to
  one server object the server changes by its counter only, which grows by the number of
  events sent, so that no call lowers or resets it. The identifiers of the events sent
  through one server object, from its creation on, are pairwise different.
\<close>

theorem event_count_and_identifiers:
  "fst (generate_caep_event w s filepath access) = s\<lparr>event_count := event_count s + 1\<rparr>
   \<and> fst (run s calls)
       = s\<lparr>event_count := event_count s + int (length (posted (snd (run s calls))))\<rparr>
   \<and> distinct (map jti (posted (snd (run init_server calls))))"
proof (intro conjI)
  show "fst (generate_caep_event w s filepath access) = s\<lparr>event_count := event_count s + 1\<rparr>"
    by (rule generate_caep_event_state)
  show "fst (run s calls)
       = s\<lparr>event_count := event_count s + int (length (posted (snd (run s calls))))\<rparr>"
    by (rule run_counts)
  have "0 \<le> event_count init_server" by (simp add: init_server_def)
  from run_jtis [OF this]
  show "distinct (map jti (posted (snd (run init_server calls))))" by blast
qed

section \<open>Delivery\<close>

lemma generate_caep_event_post:
  "generate_caep_event (w\<lparr>post := p\<rparr>) s filepath access
     = (fst (generate_caep_event w s filepath access),
        butlast (snd (generate_caep_event w s filepath access))
          @ [Print (delivery_line (p (ssf_receiver_url s)
               (make_event w (s\<lparr>event_count := event_count s + 1\<rparr>) filepath access)))])"
  by (simp add: generate_caep_event_def make_event_def Let_def)

lemma handle_file_read_post:
  "fst (handle_file_read (w\<lparr>post := p\<rparr>) s filepath) = fst (handle_file_read w s filepath)
   \<and> fst (snd (handle_file_read (w\<lparr>post := p\<rparr>) s filepath))
       = fst (snd (handle_file_read w s filepath))"
  by (auto simp: handle_file_read_def handle_file_read_try_def generate_caep_event_def Let_def
      split: sum.splits prod.splits)

lemma handle_list_files_post:
  "handle_list_files (w\<lparr>post := p\<rparr>) s dirpath = handle_list_files w s dirpath"
proof -
  have items: "list_items (w\<lparr>post := p\<rparr>) s a names = list_items w s a names" for a names
    by (induction names) (simp_all add: item_icon_def cong: sum.case_cong)
  show ?thesis
    by (simp add: handle_list_files_def handle_list_files_try_def items
        cong: sum.case_cong if_cong)
qed

lemma handle_file_read_content:
  assumes "resolve w filepath = Inr abs_path"
    and "within_sandbox abs_path"
    and "path_exists w abs_path = Inr True"
    and "is_file w abs_path = Inr True"
    and "read_text w abs_path = Inr content"
  shows "fst (handle_file_read w s filepath)
           = file_content abs_path (is_sensitive_file s abs_path) content"
  using assms
  by (simp add: handle_file_read_def handle_file_read_try_def Let_def split: prod.splits)

text \<open>
  C5. \<open>generate_caep_event\<close> returns for every outcome of the request, be it a status or
  an exception: the outcome decides the last line printed and nothing else. The text and
  the server that \<open>handle_file_read\<close> returns, and all that \<open>handle_list_files\<close> returns,
  are the same for any two receivers; the content of an existing regular file within the
  sandbox is returned whatever the receiver does.
\<close>

theorem delivery_outcome_is_not_observed:
  "generate_caep_event (w\<lparr>post := p\<rparr>) s filepath access
     = (s\<lparr>event_count := event_count s + 1\<rparr>,
        butlast (snd (generate_caep_event w s filepath access))
          @ [Print (delivery_line (p (ssf_receiver_url s)
               (make_event w (s\<lparr>event_count := event_count s + 1\<rparr>) filepath access)))])
   \<and> fst (handle_file_read (w\<lparr>post := p\<rparr>) s filepath)
       = fst (handle_file_read (w\<lparr>post := p'\<rparr>) s filepath)
   \<and> fst (snd (handle_file_read (w\<lparr>post := p\<rparr>) s filepath))
       = fst (snd (handle_file_read (w\<lparr>post := p'\<rparr>) s filepath))
   \<and> handle_list_files (w\<lparr>post := p\<rparr>) s dirpath = handle_list_files (w\<lparr>post := p'\<rparr>) s dirpath
   \<and> (resolve w filepath = Inr abs_path \<and> within_sandbox abs_path
        \<and> path_exists w abs_path = Inr True \<and> is_file w abs_path = Inr True
        \<and> read_text w abs_path = Inr content
        \<longrightarrow> fst (handle_file_read (w\<lparr>post := p\<rparr>) s filepath)
              = file_content abs_path (is_sensitive_file s abs_path) content)"
proof (intro conjI impI)
  show "generate_caep_event (w\<lparr>post := p\<rparr>) s filepath access
     = (s\<lparr>event_count := event_count s + 1\<rparr>,
        butlast (snd (generate_caep_event w s filepath access))
          @ [Print (delivery_line (p (ssf_receiver_url s)
               (make_event w (s\<lparr>event_count := event_count s + 1\<rparr>) filepath access)))])"
    by (simp only: generate_caep_event_post generate_caep_event_state)
  show "fst (handle_file_read (w\<lparr>post := p\<rparr>) s filepath)
       = fst (handle_file_read (w\<lparr>post := p'\<rparr>) s filepath)"
    by (simp only: handle_file_read_post)
  show "fst (snd (handle_file_read (w\<lparr>post := p\<rparr>) s filepath))
       = fst (snd (handle_file_read (w\<lparr>post := p'\<rparr>) s filepath))"
    by (simp only: handle_file_read_post)
  show "handle_list_files (w\<lparr>post := p\<rparr>) s dirpath = handle_list_files (w\<lparr>post := p'\<rparr>) s dirpath"
    by (simp only: handle_list_files_post)
  assume "resolve w filepath = Inr abs_path \<and> within_sandbox abs_path
        \<and> path_exists w abs_path = Inr True \<and> is_file w abs_path = Inr True
        \<and> read_text w abs_path = Inr content"
  then have "fst (handle_file_read w s filepath)
              = file_content abs_path (is_sensitive_file s abs_path) content"
    by (simp add: handle_file_read_content)
  then show "fst (handle_file_read (w\<lparr>post := p\<rparr>) s filepath)
              = file_content abs_path (is_sensitive_file s abs_path) content"
    by (simp only: handle_file_read_post)
qed

theorem delivery_outcome_is_not_observed_witness:
  "resolve lab_world ''/workspace/test-files/api-keys.credentials''
     = Inr ''/workspace/test-files/api-keys.credentials''
   \<and> within_sandbox ''/workspace/test-files/api-keys.credentials''
   \<and> path_exists lab_world ''/workspace/test-files/api-keys.credentials'' = Inr True
   \<and> is_file lab_world ''/workspace/test-files/api-keys.credentials'' = Inr True
   \<and> read_text lab_world ''/workspace/test-files/api-keys.credentials'' = Inr ''token=123''
   \<and> is_sensitive_file init_server ''/workspace/test-files/api-keys.credentials''
   \<and> fst (handle_file_read (lab_world\<lparr>post := \<lambda>url ev. Inr 503\<rparr>) init_server
        ''/workspace/test-files/api-keys.credentials'')
       = file_content ''/workspace/test-files/api-keys.credentials'' True ''token=123''"
proof -
  let ?p = "''/workspace/test-files/api-keys.credentials''"
  have h: "resolve lab_world ?p = Inr ?p \<and> within_sandbox ?p
        \<and> path_exists lab_world ?p = Inr True \<and> is_file lab_world ?p = Inr True
        \<and> read_text lab_world ?p = Inr ''token=123''"
    by (simp add: lab_world_def lab_files_def lab_dirs_def within_sandbox_def startswith_def)
  have sens: "is_sensitive_file init_server ?p" by (simp add: classifier_eval)
  note c = delivery_outcome_is_not_observed
    [where w = lab_world and p = "\<lambda>url ev. Inr 503" and s = init_server and filepath = ?p
       and abs_path = ?p and content = "''token=123''"]
  have "fst (handle_file_read (lab_world\<lparr>post := \<lambda>url ev. Inr 503\<rparr>) init_server ?p)
          = file_content ?p (is_sensitive_file init_server ?p) ''token=123''"
    using c [THEN conjunct2, THEN conjunct2, THEN conjunct2, THEN conjunct2] h by (rule mp)
  with sens have "fst (handle_file_read (lab_world\<lparr>post := \<lambda>url ev. Inr 503\<rparr>) init_server ?p)
          = file_content ?p True ''token=123''" by (simp only: eqTrueI)
  with h sens show ?thesis by (simp only: simp_thms)
qed

section \<open>Results of listing\<close>

lemma list_texts_differ:
  "error_listing e \<noteq> dir_not_found a"
  "dir_listing a files \<noteq> dir_not_found b"
  "error_listing e \<noteq> access_denied a"
  "dir_listing a files \<noteq> access_denied b"
  "dir_not_found a \<noteq> access_denied b"
  by (simp_all add: error_listing_def dir_not_found_def dir_listing_def access_denied_def
      cross_mark_def folder_icon_def warning_sign_def)

lemma icons_differ:
  "lock_icon \<noteq> folder_icon \<and> lock_icon \<noteq> page_icon \<and> folder_icon \<noteq> page_icon"
  by (simp add: lock_icon_def folder_icon_def page_icon_def)

lemma handle_list_files_not_found_iff:
  assumes "resolve w dirpath = Inr abs_path"
  shows "fst (handle_list_files w s dirpath) = dir_not_found abs_path \<longleftrightarrow>
           (path_exists w abs_path = Inr False
            \<or> (path_exists w abs_path = Inr True \<and> is_dir w abs_path = Inr False))"
  using assms
  by (auto simp: handle_list_files_def handle_list_files_try_def list_texts_differ
      split: sum.splits)

lemma handle_list_files_not_denied:
  "fst (handle_list_files w s dirpath) \<noteq> access_denied a"
  by (auto simp: handle_list_files_def handle_list_files_try_def list_texts_differ
      split: sum.splits)

text \<open>
  C7. For a path that resolves, \<open>handle_list_files\<close> returns the not-found text exactly
  when the resolved path does not exist or is not a directory. It never returns the denial
  of \<open>handle_file_read\<close>: a directory that exists is enumerated and its listing returned,
  wherever it is.
\<close>

theorem list_not_found_iff:
  assumes "resolve w dirpath = Inr abs_path"
  shows "(fst (handle_list_files w s dirpath) = dir_not_found abs_path \<longleftrightarrow>
            (path_exists w abs_path = Inr False
             \<or> (path_exists w abs_path = Inr True \<and> is_dir w abs_path = Inr False)))
         \<and> fst (handle_list_files w s dirpath) \<noteq> access_denied abs_path
         \<and> (path_exists w abs_path = Inr True \<and> is_dir w abs_path = Inr True
              \<and> iterdir w abs_path = Inr names \<and> list_items w s abs_path names = Inr files
              \<longrightarrow> handle_list_files w s dirpath
                    = (dir_listing abs_path files, s, [IterDir abs_path]))"
proof (intro conjI impI)
  show "fst (handle_list_files w s dirpath) = dir_not_found abs_path \<longleftrightarrow>
            (path_exists w abs_path = Inr False
             \<or> (path_exists w abs_path = Inr True \<and> is_dir w abs_path = Inr False))"
    using assms by (rule handle_list_files_not_found_iff)
  show "fst (handle_list_files w s dirpath) \<noteq> access_denied abs_path"
    by (rule handle_list_files_not_denied)
  assume "path_exists w abs_path = Inr True \<and> is_dir w abs_path = Inr True
              \<and> iterdir w abs_path = Inr names \<and> list_items w s abs_path names = Inr files"
  with assms show "handle_list_files w s dirpath
                    = (dir_listing abs_path files, s, [IterDir abs_path])"
    by (simp add: handle_list_files_listing)
qed

theorem list_not_found_iff_witness:
  "resolve lab_world ''/etc'' = Inr ''/etc''
   \<and> \<not> within_sandbox ''/etc''
   \<and> path_exists lab_world ''/etc'' = Inr True
   \<and> is_dir lab_world ''/etc'' = Inr True
   \<and> iterdir lab_world ''/etc'' = Inr [''passwd'']
   \<and> list_items lab_world init_server ''/etc'' [''passwd''] = Inr [page_icon @ '' passwd'']
   \<and> handle_list_files lab_world init_server ''/etc''
       = (dir_listing ''/etc'' [page_icon @ '' passwd''], init_server, [IterDir ''/etc''])"
proof -
  have res: "resolve lab_world ''/etc'' = Inr ''/etc''" by (simp add: lab_world_def)
  have out: "\<not> within_sandbox ''/etc''" by (simp add: within_sandbox_def startswith_def)
  have fs: "path_exists lab_world ''/etc'' = Inr True \<and> is_dir lab_world ''/etc'' = Inr True
              \<and> iterdir lab_world ''/etc'' = Inr [''passwd'']"
    by (simp add: lab_world_def lab_files_def lab_dirs_def)
  have "\<not> is_sensitive_file init_server ''/etc/passwd''" by (simp add: classifier_eval)
  then have items: "list_items lab_world init_server ''/etc'' [''passwd''] = Inr [page_icon @ '' passwd'']"
    by (simp add: item_icon_def child_def lab_world_def lab_files_def lab_dirs_def)
  note c = list_not_found_iff [OF res, where s = init_server and names = "[''passwd'']"
      and files = "[page_icon @ '' passwd'']"]
  have "handle_list_files lab_world init_server ''/etc''
       = (dir_listing ''/etc'' [page_icon @ '' passwd''], init_server, [IterDir ''/etc''])"
    using c [THEN conjunct2, THEN conjunct2] fs items by simp
  with res out fs items show ?thesis by (simp only: simp_thms)
qed

section \<open>Labels of a listing\<close>

text \<open>
  C8. When a directory is listed, the listing has one line for each child, in the order
  of the enumeration: the child's label, a space and its name. The label is one of three
  different icons: the sensitive one when \<open>is_sensitive_file\<close> holds of the child's path,
  whether the child is a directory or not, and otherwise the directory or the file one
  according to the child's type.
\<close>

theorem listing_labels:
  assumes "resolve w dirpath = Inr abs_path"
    and "path_exists w abs_path = Inr True"
    and "is_dir w abs_path = Inr True"
    and "iterdir w abs_path = Inr names"
    and "\<forall>n \<in> set names. \<not> is_sensitive_file s (child abs_path n) \<longrightarrow>
           (\<exists>d. is_dir w (child abs_path n) = Inr d)"
  shows "fst (handle_list_files w s dirpath)
           = dir_listing abs_path (map (\<lambda>n. spec_label w s (child abs_path n) @ '' '' @ n) names)
         \<and> lock_icon \<noteq> folder_icon \<and> lock_icon \<noteq> page_icon \<and> folder_icon \<noteq> page_icon"
proof -
  from assms(5)
  have "list_items w s abs_path names
          = Inr (map (\<lambda>n. spec_label w s (child abs_path n) @ '' '' @ n) names)"
    by (rule list_items_labels)
  with assms(1-4)
  have "handle_list_files w s dirpath
          = (dir_listing abs_path (map (\<lambda>n. spec_label w s (child abs_path n) @ '' '' @ n) names),
             s, [IterDir abs_path])"
    by (rule handle_list_files_listing)
  then show ?thesis using icons_differ by simp
qed

theorem listing_labels_witness:
  "resolve lab_world ''/workspace/test-files'' = Inr ''/workspace/test-files''
   \<and> path_exists lab_world ''/workspace/test-files'' = Inr True
   \<and> is_dir lab_world ''/workspace/test-files'' = Inr True
   \<and> iterdir lab_world ''/workspace/test-files'' = Inr [''public-data.txt'', ''api-keys.credentials'']
   \<and> fst (handle_list_files lab_world init_server ''/workspace/test-files'')
       = dir_listing ''/workspace/test-files''
           [page_icon @ '' public-data.txt'', lock_icon @ '' api-keys.credentials'']"
proof -
  let ?d = "''/workspace/test-files''"
  let ?names = "[''public-data.txt'', ''api-keys.credentials'']"
  have res: "resolve lab_world ?d = Inr ?d" by (simp add: lab_world_def)
  have ex: "path_exists lab_world ?d = Inr True"
    by (simp add: lab_world_def lab_files_def lab_dirs_def)
  have dir: "is_dir lab_world ?d = Inr True"
    by (simp add: lab_world_def lab_files_def lab_dirs_def)
  have it: "iterdir lab_world ?d = Inr ?names"
    by (simp add: lab_world_def lab_files_def lab_dirs_def)
  have typed: "\<forall>n \<in> set ?names. \<not> is_sensitive_file init_server (child ?d n) \<longrightarrow>
           (\<exists>d. is_dir lab_world (child ?d n) = Inr d)"
    by (simp add: lab_world_def)
  have plain: "spec_label lab_world init_server ''/workspace/test-files/public-data.txt'' = page_icon"
    by (simp add: spec_label_def lab_eval)
  have secret: "spec_label lab_world init_server ''/workspace/test-files/api-keys.credentials'' = lock_icon"
    by (simp add: spec_label_def classifier_eval)
  from listing_labels [OF res ex dir it typed]
  have "fst (handle_list_files lab_world init_server ?d)
           = dir_listing ?d (map (\<lambda>n. spec_label lab_world init_server (child ?d n) @ '' '' @ n) ?names)"
    by (rule conjunct1)
  with plain secret
  have "fst (handle_list_files lab_world init_server ?d)
       = dir_listing ?d [page_icon @ '' public-data.txt'', lock_icon @ '' api-keys.credentials'']"
    by (simp add: child_def)
  with res ex dir it show ?thesis by (simp only: simp_thms)
qed

text \<open>
  C10. When \<open>is_sensitive_file\<close> holds of the path of a directory, every line of the
  listing of that directory carries the sensitive icon, whatever the names of the children
  are: a pattern found in the directory's path is found in the path of each child.
\<close>

theorem sensitive_directory_marks_every_child:
  assumes "is_sensitive_file s abs_path"
    and "resolve w dirpath = Inr abs_path"
    and "path_exists w abs_path = Inr True"
    and "is_dir w abs_path = Inr True"
    and "iterdir w abs_path = Inr names"
  shows "fst (handle_list_files w s dirpath)
           = dir_listing abs_path (map (\<lambda>n. lock_icon @ '' '' @ n) names)"
proof -
  have sens: "is_sensitive_file s (child abs_path n)" for n
    using assms(1) by (rule is_sensitive_file_child)
  then have "\<forall>n \<in> set names. \<not> is_sensitive_file s (child abs_path n) \<longrightarrow>
           (\<exists>d. is_dir w (child abs_path n) = Inr d)" by simp
  then have "list_items w s abs_path names
          = Inr (map (\<lambda>n. spec_label w s (child abs_path n) @ '' '' @ n) names)"
    by (rule list_items_labels)
  with sens have "list_items w s abs_path names = Inr (map (\<lambda>n. lock_icon @ '' '' @ n) names)"
    by (simp add: spec_label_def)
  with assms(2-5)
  have "handle_list_files w s dirpath
          = (dir_listing abs_path (map (\<lambda>n. lock_icon @ '' '' @ n) names), s, [IterDir abs_path])"
    by (rule handle_list_files_listing)
  then show ?thesis by simp
qed

theorem sensitive_directory_marks_every_child_witness:
  "is_sensitive_file init_server ''/workspace/test-files/secure/keys''
   \<and> resolve lab_world ''/workspace/test-files/secure/keys'' = Inr ''/workspace/test-files/secure/keys''
   \<and> path_exists lab_world ''/workspace/test-files/secure/keys'' = Inr True
   \<and> is_dir lab_world ''/workspace/test-files/secure/keys'' = Inr True
   \<and> iterdir lab_world ''/workspace/test-files/secure/keys'' = Inr [''readme.txt'', ''old'']
   \<and> fst (handle_list_files lab_world init_server ''/workspace/test-files/secure/keys'')
       = dir_listing ''/workspace/test-files/secure/keys''
           [lock_icon @ '' readme.txt'', lock_icon @ '' old'']"
proof -
  let ?d = "''/workspace/test-files/secure/keys''"
  have sens: "is_sensitive_file init_server ?d" by (simp add: classifier_eval)
  have res: "resolve lab_world ?d = Inr ?d" by (simp add: lab_world_def)
  have ex: "path_exists lab_world ?d = Inr True"
    by (simp add: lab_world_def lab_files_def lab_dirs_def)
  have dir: "is_dir lab_world ?d = Inr True"
    by (simp add: lab_world_def lab_files_def lab_dirs_def)
  have it: "iterdir lab_world ?d = Inr [''readme.txt'', ''old'']"
    by (simp add: lab_world_def lab_files_def lab_dirs_def)
  from sensitive_directory_marks_every_child [OF sens res ex dir it]
  have "fst (handle_list_files lab_world init_server ?d)
       = dir_listing ?d [lock_icon @ '' readme.txt'', lock_icon @ '' old'']"
    by simp
  with sens res ex dir it show ?thesis by (simp only: simp_thms)
qed

section \<open>Identifiers in the test client\<close>

lemma sensitive_read_jti:
  assumes "is_sensitive_file init_server filepath"
    and "resolve w filepath = Inr filepath"
  shows "map jti (posted (test_file_access w filepath))
           = [''event-'' @ str_int (time_jti w) @ ''-1'']"
proof -
  from handle_file_read_resolved [OF assms(2), of init_server] assms(1)
  obtain res extra where
    r: "handle_file_read w init_server filepath =
             (res, fst (generate_caep_event w init_server filepath ''file_access''),
              snd (generate_caep_event w init_server filepath ''file_access'') @ extra)"
    and e: "posted extra = []" by auto
  have one: "str_int (event_count init_server + 1) = ''1''"
    by (simp add: init_server_def str_int_def str_nat_small digit_char_def)
  from r e show ?thesis
    by (simp add: test_file_access_def posted_append generate_caep_event_posted make_event_def one)
qed

lemma plain_read_jti:
  assumes "\<not> is_sensitive_file init_server filepath"
    and "resolve w filepath = Inr filepath"
  shows "posted (test_file_access w filepath) = []"
proof -
  from handle_file_read_resolved [OF assms(2), of init_server] assms(1)
  obtain res extra where
    r: "handle_file_read w init_server filepath = (res, init_server, extra)"
    and e: "posted extra = []" by auto
  from r e show ?thesis
    by (simp add: test_file_access_def posted_append)
qed

lemma test_client_identifiers:
  "map jti (posted (test_client_main lab_world (\<lambda>i. lab_world) []))
     = [''event-1700000000-1'', ''event-1700000000-1'']"
proof -
  have res: "resolve lab_world p = Inr p" for p by (simp add: lab_world_def)
  have t: "str_int (time_jti lab_world) = ''1700000000''"
    by (simp add: lab_world_def str_int_def str_nat_small str_nat_big digit_char_def)
  have a: "\<not> is_sensitive_file init_server ''/workspace/test-files/public-data.txt''"
    by (simp add: classifier_eval)
  have b: "is_sensitive_file init_server ''/workspace/test-files/user-credentials.secret''"
    by (simp add: classifier_eval)
  have c: "is_sensitive_file init_server ''/workspace/test-files/api-keys.credentials''"
    by (simp add: classifier_eval)
  have l: "posted (test_directory_listing lab_world ''/workspace/test-files'') = []"
    using handle_list_files_frame [of lab_world init_server "''/workspace/test-files''"]
    by (auto simp: test_directory_listing_def posted_append split: prod.splits)
  show ?thesis
    by (simp add: test_client_main_def posted_append l
        plain_read_jti [OF a res] sensitive_read_jti [OF b res] sensitive_read_jti [OF c res] t)
qed

text \<open>
  C6 as it is stated, with a counter of the process, fails in the process of the test client: every read there
  goes to a server object of its own, whose counter starts at 0, and two reads of sensitive
  files within one second of the clock send the same identifier.
\<close>

theorem test_client_repeats_an_identifier:
  "\<not> distinct (map jti (posted (test_client_main lab_world (\<lambda>i. lab_world) [])))"
  by (simp add: test_client_identifiers)

end
